theory Spec2Isabelle
  imports Complex_Main
begin

section \<open>Data model\<close>

text \<open>
  The policy engine of \<^verbatim>\<open>src/cpp/src/policy.cc\<close>: two arrays of four task
  queues, a logical clock, event folding, and the selection-and-migration pass.

  The header \<^verbatim>\<open>policy.h\<close> that declares \<^verbatim>\<open>Event\<close>, \<^verbatim>\<open>Event::Task\<close> and
  \<^verbatim>\<open>Action\<close> is not among the sources; the four types below carry the fields that
  \<^verbatim>\<open>policy.cc\<close> reads and writes, with the value sets the specification gives.
\<close>

text \<open>Modelled from the spec: \<^verbatim>\<open>Event::Task::Priority\<close> (\<^verbatim>\<open>kHigh\<close> and the rest).\<close>

datatype priority = High | Low

text \<open>
  Modelled from the spec: \<^verbatim>\<open>Event::Task::Status\<close>. The source names only
  \<^verbatim>\<open>Status::kIoEnd\<close>, here \<open>JustFinishedIO\<close>.
\<close>

datatype status = Normal | JustFinishedIO

text \<open>
  Modelled from the spec: \<^verbatim>\<open>Event::Task\<close>. Ids, deadlines and times are C++
  \<^verbatim>\<open>int\<close>s in \<^verbatim>\<open>policy.cc\<close>; they are mathematical integers here. Signed
  overflow of \<^verbatim>\<open>deadline - currentTime\<close> is undefined in C++ and is not modelled;
  where the 32-bit range matters it is a stated hypothesis (\<open>int_range\<close>).
\<close>

record task =
  taskId :: int
  priority :: priority
  deadline :: int
  status :: status

text \<open>Modelled from the spec: \<^verbatim>\<open>Event::Type\<close>.\<close>

datatype event_type = kTimer | kTaskArrival | kTaskFinish | kIoRequest | kIoEnd

text \<open>Modelled from the spec: \<^verbatim>\<open>Event\<close>; the field \<^verbatim>\<open>type\<close> is \<open>etype\<close>.\<close>

record event =
  time :: int
  etype :: event_type
  task :: task

text \<open>Modelled from the spec: \<^verbatim>\<open>Action\<close>.\<close>

record action =
  cpuTask :: int
  ioTask :: int

subsection \<open>Constants of \<^verbatim>\<open>SchedulerConstants\<close>\<close>

definition NUM_PRIORITY_QUEUES :: nat where
  "NUM_PRIORITY_QUEUES = 4"

text \<open>
  Scores are \<^verbatim>\<open>double\<close>s in the source and exact rationals here. For gaps
  \<open>deadline - currentTime\<close> in the 32-bit range, \<open>1.0 * gap\<close> and \<open>1e5 + gap\<close> are
  integers below \<open>2 ^ 53\<close> and hence exact, and the rounded product \<open>0.4 * gap\<close>
  lies within \<open>2 ^ - 23\<close> of \<open>2 / 5 * gap\<close>, is equal to it when that is an integer,
  and is at least \<open>1 / 5\<close> away from every integer otherwise; so every comparison
  \<open>score < minScore\<close> of the loop has the same outcome on the rationals.
\<close>

definition IO_END_PRIORITY_BOOST_FACTOR :: rat where
  "IO_END_PRIORITY_BOOST_FACTOR = 2 / 5"

definition REGULAR_TASK_PRIORITY_FACTOR :: rat where
  "REGULAR_TASK_PRIORITY_FACTOR = 1"

definition OVERDUE_PENALTY_SCORE :: rat where
  "OVERDUE_PENALTY_SCORE = 100000"

definition IDLE_TASK_ID :: int where
  "IDLE_TASK_ID = 0"

text \<open>\<^verbatim>\<open>std::numeric_limits<double>::max()\<close>, the initial \<^verbatim>\<open>minScore\<close>.\<close>

definition DBL_MAX :: rat where
  "DBL_MAX = (2 ^ 53 - 1) * 2 ^ 971"

text \<open>The values of a 32-bit \<^verbatim>\<open>int\<close>.\<close>

definition int_range :: "int \<Rightarrow> bool" where
  "int_range x \<longleftrightarrow> - (2 ^ 31) \<le> x \<and> x < 2 ^ 31"

subsection \<open>Process-wide state\<close>

text \<open>
  \<^verbatim>\<open>g_currentTime\<close>, \<^verbatim>\<open>g_cpuTaskQueues\<close> and \<^verbatim>\<open>g_ioTaskQueues\<close>. An array of
  \<^verbatim>\<open>NUM_PRIORITY_QUEUES\<close> vectors is a list of task lists; the arrays of the program
  have length four (\<open>wf_queues\<close>).
\<close>

type_synonym queues = "task list list"

record sched_state =
  g_currentTime :: int
  g_cpuTaskQueues :: queues
  g_ioTaskQueues :: queues

definition wf_queues :: "queues \<Rightarrow> bool" where
  "wf_queues qs \<longleftrightarrow> length qs = NUM_PRIORITY_QUEUES"

definition initial_state :: sched_state where
  "initial_state =
     \<lparr>g_currentTime = 0,
      g_cpuTaskQueues = replicate NUM_PRIORITY_QUEUES [],
      g_ioTaskQueues = replicate NUM_PRIORITY_QUEUES []\<rparr>"

section \<open>Operations\<close>

subsection \<open>\<^verbatim>\<open>removeTaskFromQueues\<close>\<close>

text \<open>The erase-remove idiom on one vector: the entries with the id go, the rest keep their order.\<close>

definition eraseById :: "int \<Rightarrow> task list \<Rightarrow> task list" where
  "eraseById tid q = filter (\<lambda>t. taskId t \<noteq> tid) q"

definition removeTaskFromQueues :: "queues \<Rightarrow> int \<Rightarrow> queues" where
  "removeTaskFromQueues qs tid =
     fold (\<lambda>i acc. acc[i := eraseById tid (acc ! i)]) [0..<NUM_PRIORITY_QUEUES] qs"

text \<open>\<^verbatim>\<open>queues[l].push_back(t)\<close>.\<close>

definition push_back :: "queues \<Rightarrow> nat \<Rightarrow> task \<Rightarrow> queues" where
  "push_back qs l t = qs[l := qs ! l @ [t]]"

subsection \<open>\<^verbatim>\<open>selectAndMigrateTask\<close>\<close>

text \<open>
  The three-way score of the loop body (lines 52 to 64). The gap
  \<open>deadline t - currentTime\<close> is an \<^verbatim>\<open>int\<close> subtraction in the source; \<open>score\<close> is
  the source's score for gaps that the subtraction can represent (\<open>int_range\<close>), and
  the statements about \<open>score\<close> below are made for such gaps.
\<close>

definition score :: "task \<Rightarrow> int \<Rightarrow> rat" where
  "score t currentTime =
     (if deadline t > currentTime then
        (if status t = JustFinishedIO
         then IO_END_PRIORITY_BOOST_FACTOR * of_int (deadline t - currentTime)
         else REGULAR_TASK_PRIORITY_FACTOR * of_int (deadline t - currentTime))
      else OVERDUE_PENALTY_SCORE + of_int (deadline t - currentTime))"

text \<open>
  The range-for loop over \<^verbatim>\<open>taskQueues[fromLevel]\<close>, carrying
  \<^verbatim>\<open>selectedTask\<close> and \<^verbatim>\<open>minScore\<close>.
\<close>

fun selectLoop :: "task list \<Rightarrow> int \<Rightarrow> task option \<times> rat \<Rightarrow> task option \<times> rat" where
  "selectLoop [] currentTime (selectedTask, minScore) = (selectedTask, minScore)"
| "selectLoop (t # ts) currentTime (selectedTask, minScore) =
     (if score t currentTime < minScore
      then selectLoop ts currentTime (Some t, score t currentTime)
      else selectLoop ts currentTime (selectedTask, minScore))"

definition selectAndMigrateTask ::
    "queues \<Rightarrow> nat \<Rightarrow> nat \<Rightarrow> int \<Rightarrow> task option \<times> queues" where
  "selectAndMigrateTask taskQueues fromLevel toLevel currentTime =
     (case fst (selectLoop (taskQueues ! fromLevel) currentTime (None, DBL_MAX)) of
        None \<Rightarrow> (None, taskQueues)
      | Some sel \<Rightarrow>
          (let erased = taskQueues[fromLevel := eraseById (taskId sel) (taskQueues ! fromLevel)]
           in (Some sel, push_back erased toLevel sel)))"

subsection \<open>\<^verbatim>\<open>policy\<close>\<close>

text \<open>The level an arriving task is queued at: 0 for high priority, 2 otherwise.\<close>

definition entryLevel :: "task \<Rightarrow> nat" where
  "entryLevel t = (if priority t = High then 0 else 2)"

text \<open>One iteration of the event loop (lines 98 to 136).\<close>

definition processEvent :: "sched_state \<Rightarrow> event \<Rightarrow> sched_state" where
  "processEvent s ev =
     (let s1 = s\<lparr>g_currentTime := time ev\<rparr>;
          currentEventTask = task ev
      in case etype ev of
           kTaskArrival \<Rightarrow>
             s1\<lparr>g_cpuTaskQueues :=
                  push_back (g_cpuTaskQueues s1) (entryLevel currentEventTask) currentEventTask\<rparr>
         | kIoRequest \<Rightarrow>
             s1\<lparr>g_cpuTaskQueues :=
                  removeTaskFromQueues (g_cpuTaskQueues s1) (taskId currentEventTask),
                g_ioTaskQueues :=
                  push_back (g_ioTaskQueues s1) (entryLevel currentEventTask) currentEventTask\<rparr>
         | kIoEnd \<Rightarrow>
             s1\<lparr>g_ioTaskQueues :=
                  removeTaskFromQueues (g_ioTaskQueues s1) (taskId currentEventTask),
                g_cpuTaskQueues :=
                  push_back (g_cpuTaskQueues s1) (entryLevel currentEventTask)
                    (currentEventTask\<lparr>status := JustFinishedIO\<rparr>)\<rparr>
         | kTaskFinish \<Rightarrow>
             s1\<lparr>g_cpuTaskQueues :=
                  removeTaskFromQueues (g_cpuTaskQueues s1) (taskId currentEventTask)\<rparr>
         | kTimer \<Rightarrow> s1)"

definition processEvents :: "sched_state \<Rightarrow> event list \<Rightarrow> sched_state" where
  "processEvents s events = foldl processEvent s events"

text \<open>The migration target of level \<open>i\<close> (lines 142 and 155).\<close>

definition nextLevel :: "nat \<Rightarrow> nat" where
  "nextLevel i = (if i = NUM_PRIORITY_QUEUES - 1 then 0 else i + 1)"

text \<open>
  The scan over the levels (lines 140 to 148, and 153 to 161): the first level that
  yields a task ends it.
\<close>

fun scanLevels :: "nat list \<Rightarrow> queues \<Rightarrow> int \<Rightarrow> task option \<times> queues" where
  "scanLevels [] qs currentTime = (None, qs)"
| "scanLevels (i # rest) qs currentTime =
     (case selectAndMigrateTask qs i (nextLevel i) currentTime of
        (Some chosen, qs') \<Rightarrow> (Some chosen, qs')
      | (None, qs') \<Rightarrow> scanLevels rest qs' currentTime)"

definition selectionPass :: "queues \<Rightarrow> int \<Rightarrow> task option \<times> queues" where
  "selectionPass qs currentTime = scanLevels [0..<NUM_PRIORITY_QUEUES] qs currentTime"

definition policy :: "sched_state \<Rightarrow> event list \<Rightarrow> int \<Rightarrow> int \<Rightarrow> action \<times> sched_state" where
  "policy s events currentCpuTask currentIoTask =
     (let s1 = processEvents s events;
          (chosenCpuTask, cpuQs) = selectionPass (g_cpuTaskQueues s1) (g_currentTime s1);
          (chosenIoTask, ioQs) =
            (if currentIoTask = IDLE_TASK_ID
             then selectionPass (g_ioTaskQueues s1) (g_currentTime s1)
             else (None, g_ioTaskQueues s1))
      in (\<lparr>cpuTask = (case chosenCpuTask of None \<Rightarrow> currentCpuTask | Some t \<Rightarrow> taskId t),
           ioTask = (case chosenIoTask of None \<Rightarrow> currentIoTask | Some t \<Rightarrow> taskId t)\<rparr>,
          s1\<lparr>g_cpuTaskQueues := cpuQs, g_ioTaskQueues := ioQs\<rparr>))"

section \<open>Properties stated about the state\<close>

text \<open>The ids queued in an array, level by level, with repetitions.\<close>

definition queued_ids :: "queues \<Rightarrow> int list" where
  "queued_ids qs = map taskId (concat qs)"

text \<open>No id is queued twice, within a level, across levels or across the two arrays.\<close>

definition unique_ids :: "sched_state \<Rightarrow> bool" where
  "unique_ids s \<longleftrightarrow>
     distinct (queued_ids (g_cpuTaskQueues s) @ queued_ids (g_ioTaskQueues s))"

text \<open>
  An event that does not queue an id a second time: the event loop erases the id from
  the CPU array on \<open>kIoRequest\<close> and from the IO array on \<open>kIoEnd\<close>, and from neither
  on \<open>kTaskArrival\<close>, so the id must be absent from the arrays the event leaves alone.
\<close>

definition event_fresh :: "sched_state \<Rightarrow> event \<Rightarrow> bool" where
  "event_fresh s ev =
     (case etype ev of
        kTaskArrival \<Rightarrow> taskId (task ev) \<notin> set (queued_ids (g_cpuTaskQueues s)) \<and>
                         taskId (task ev) \<notin> set (queued_ids (g_ioTaskQueues s))
      | kIoRequest \<Rightarrow> taskId (task ev) \<notin> set (queued_ids (g_ioTaskQueues s))
      | kIoEnd \<Rightarrow> taskId (task ev) \<notin> set (queued_ids (g_cpuTaskQueues s))
      | kTaskFinish \<Rightarrow> True
      | kTimer \<Rightarrow> True)"

fun events_fresh :: "sched_state \<Rightarrow> event list \<Rightarrow> bool" where
  "events_fresh s [] = True"
| "events_fresh s (ev # evs) = (event_fresh s ev \<and> events_fresh (processEvent s ev) evs)"

text \<open>
  A call of the entry point: the batch and the two occupants. \<open>run_calls\<close> is the state
  after a sequence of calls; \<open>calls_fresh\<close> says that every batch of the sequence is
  fresh in the state it is folded into.
\<close>

type_synonym call = "event list \<times> int \<times> int"

fun run_calls :: "sched_state \<Rightarrow> call list \<Rightarrow> sched_state" where
  "run_calls s [] = s"
| "run_calls s ((evs, currentCpuTask, currentIoTask) # cs) =
     run_calls (snd (policy s evs currentCpuTask currentIoTask)) cs"

fun calls_fresh :: "sched_state \<Rightarrow> call list \<Rightarrow> bool" where
  "calls_fresh s [] = True"
| "calls_fresh s ((evs, currentCpuTask, currentIoTask) # cs) =
     (events_fresh s evs \<and>
      calls_fresh (snd (policy s evs currentCpuTask currentIoTask)) cs)"

definition state_ok :: "sched_state \<Rightarrow> bool" where
  "state_ok s \<longleftrightarrow>
     wf_queues (g_cpuTaskQueues s) \<and> wf_queues (g_ioTaskQueues s) \<and> unique_ids s"

text \<open>An array that holds one task, at level \<open>i\<close>.\<close>

definition alone :: "task \<Rightarrow> nat \<Rightarrow> queues" where
  "alone t i = (replicate NUM_PRIORITY_QUEUES [])[i := [t]]"

subsection \<open>Example inputs\<close>

text \<open>The two tasks of the example in section 8 of the specification.\<close>

definition task5 :: task where
  "task5 = \<lparr>taskId = 5, priority = High, deadline = 10, status = Normal\<rparr>"

definition task7 :: task where
  "task7 = \<lparr>taskId = 7, priority = High, deadline = 2, status = Normal\<rparr>"

text \<open>A task that returns from IO and a rival with an earlier deadline.\<close>

definition io_task :: task where
  "io_task = \<lparr>taskId = 1, priority = High, deadline = 100, status = Normal\<rparr>"

definition rival :: task where
  "rival = \<lparr>taskId = 2, priority = High, deadline = 50, status = Normal\<rparr>"

definition low_task :: task where
  "low_task = \<lparr>taskId = 3, priority = Low, deadline = 20, status = Normal\<rparr>"

text \<open>
  Two calls: the first folds the rival's arrival and the IO end of \<open>io_task\<close> and selects
  \<open>io_task\<close>; the second, with an empty batch, selects the rival.
\<close>

definition after_first_call :: sched_state where
  "after_first_call =
     snd (policy initial_state
            [\<lparr>time = 0, etype = kTaskArrival, task = rival\<rparr>,
             \<lparr>time = 0, etype = kIoEnd, task = io_task\<rparr>] 0 0)"

definition after_second_call :: sched_state where
  "after_second_call = snd (policy after_first_call [] 1 0)"

text \<open>A state with \<open>task7\<close> and \<open>low_task\<close> waiting for IO.\<close>

definition io_waiting :: sched_state where
  "io_waiting =
     \<lparr>g_currentTime = 1,
      g_cpuTaskQueues = [[task5], [], [], []],
      g_ioTaskQueues = [[task7], [], [low_task], [task7]]\<rparr>"

text \<open>\<open>io_task\<close> as the event loop queues it on \<open>kIoEnd\<close>.\<close>

definition boosted :: task where
  "boosted = io_task\<lparr>status := JustFinishedIO\<rparr>"

text \<open>
  At time 300000: two overdue tasks, 10 and 1000 units late, and two on-time tasks, 500
  and 200000 units ahead.
\<close>

definition late10 :: task where
  "late10 = \<lparr>taskId = 11, priority = High, deadline = 299990, status = Normal\<rparr>"

definition late1000 :: task where
  "late1000 = \<lparr>taskId = 12, priority = High, deadline = 299000, status = Normal\<rparr>"

definition near_task :: task where
  "near_task = \<lparr>taskId = 13, priority = High, deadline = 300500, status = Normal\<rparr>"

definition far_task :: task where
  "far_task = \<lparr>taskId = 14, priority = High, deadline = 500000, status = Normal\<rparr>"

text \<open>Batches that queue an id twice.\<close>

definition twice_arrived :: "event list" where
  "twice_arrived =
     [\<lparr>time = 5, etype = kTaskArrival, task = task5\<rparr>,
      \<lparr>time = 5, etype = kTaskArrival, task = task7\<rparr>,
      \<lparr>time = 5, etype = kTaskArrival, task = task7\<rparr>]"

definition arrived_during_io :: "event list" where
  "arrived_during_io =
     [\<lparr>time = 1, etype = kTaskArrival, task = low_task\<rparr>,
      \<lparr>time = 2, etype = kIoRequest, task = low_task\<rparr>,
      \<lparr>time = 3, etype = kTaskArrival, task = low_task\<rparr>]"

text \<open>A batch that queues each id once.\<close>

definition two_arrivals :: "event list" where
  "two_arrivals =
     [\<lparr>time = 5, etype = kTaskArrival, task = task5\<rparr>,
      \<lparr>time = 5, etype = kTaskArrival, task = task7\<rparr>]"

section \<open>Auxiliary facts\<close>

subsection \<open>Arrays of four levels\<close>

lemma queues4: "wf_queues qs \<Longrightarrow> \<exists>a b c d. qs = [a, b, c, d]"
  unfolding wf_queues_def NUM_PRIORITY_QUEUES_def
  by (cases qs; simp; rename_tac a r1, case_tac r1; simp; rename_tac b r2, case_tac r2; simp;
      rename_tac c r3, case_tac r3; simp)

lemma upt4: "[0..<NUM_PRIORITY_QUEUES] = [0, 1, 2, 3]"
  by (simp add: NUM_PRIORITY_QUEUES_def upt_rec)

lemma replicate4: "replicate NUM_PRIORITY_QUEUES x = [x, x, x, x]"
  by (simp add: NUM_PRIORITY_QUEUES_def numeral_eq_Suc)

lemma remove_map: "wf_queues qs \<Longrightarrow> removeTaskFromQueues qs tid = map (eraseById tid) qs"
  by (auto dest!: queues4 simp: removeTaskFromQueues_def upt4)

lemma removeTask_length: "length (removeTaskFromQueues qs tid) = length qs"
  by (simp add: removeTaskFromQueues_def upt4)

lemma removeTask_nth:
  "i < length qs \<Longrightarrow> removeTaskFromQueues qs tid ! i =
     (if i < 4 then eraseById tid (qs ! i) else qs ! i)"
proof (cases "i < 4")
  case True
  then have "i = 0 \<or> i = 1 \<or> i = 2 \<or> i = 3" by auto
  moreover assume "i < length qs"
  ultimately show ?thesis
    unfolding removeTaskFromQueues_def upt4 by auto
next
  case False
  then show ?thesis
    unfolding removeTaskFromQueues_def upt4 by simp
qed

subsection \<open>The selection loop\<close>

lemma score_below_DBL_MAX:
  assumes "int_range (deadline t - now)"
  shows "score t now < DBL_MAX"
proof -
  let ?g = "deadline t - now"
  have g: "(of_int ?g :: rat) < 2 ^ 31" "- (2 ^ 31) \<le> (of_int ?g :: rat)"
    using assms unfolding int_range_def
    by (metis of_int_less_iff of_int_numeral of_int_power,
        metis of_int_le_iff of_int_numeral of_int_power of_int_minus)
  have big: "(2 ^ 31 + 100000 :: rat) < DBL_MAX"
    unfolding DBL_MAX_def by simp
  have "score t now \<le> 2 ^ 31 + 100000"
    using g unfolding score_def IO_END_PRIORITY_BOOST_FACTOR_def
      REGULAR_TASK_PRIORITY_FACTOR_def OVERDUE_PENALTY_SCORE_def
    by (auto split: if_splits)
  with big show ?thesis by simp
qed

text \<open>
  Either the loop keeps what it was given, and then no task of the list scores below the
  given minimum; or it returns a task of the list that scores below the given minimum,
  strictly below every task before it and not above any task after it.
\<close>

lemma selectLoop_cases:
  "selectLoop ts now (sel, m) = (sel', m') \<Longrightarrow>
     (sel' = sel \<and> m' = m \<and> (\<forall>u\<in>set ts. m \<le> score u now)) \<or>
     (\<exists>pre t post. ts = pre @ t # post \<and> sel' = Some t \<and> m' = score t now \<and>
        score t now < m \<and>
        (\<forall>u\<in>set pre. score t now < score u now) \<and>
        (\<forall>u\<in>set post. score t now \<le> score u now))"
proof (induction ts arbitrary: sel m)
  case Nil
  then show ?case by simp
next
  case (Cons a ts)
  show ?case
  proof (cases "score a now < m")
    case True
    with Cons.prems have run: "selectLoop ts now (Some a, score a now) = (sel', m')"
      by simp
    from Cons.IH [OF run] show ?thesis
    proof (elim disjE exE conjE)
      assume "sel' = Some a" "m' = score a now" "\<forall>u\<in>set ts. score a now \<le> score u now"
      with True have "a # ts = [] @ a # ts \<and> sel' = Some a \<and> m' = score a now \<and>
          score a now < m \<and> (\<forall>u\<in>set []. score a now < score u now) \<and>
          (\<forall>u\<in>set ts. score a now \<le> score u now)"
        by simp
      then show ?thesis by blast
    next
      fix pre t post
      assume "ts = pre @ t # post" "sel' = Some t" "m' = score t now"
        "score t now < score a now" "\<forall>u\<in>set pre. score t now < score u now"
        "\<forall>u\<in>set post. score t now \<le> score u now"
      with True have "a # ts = (a # pre) @ t # post \<and> sel' = Some t \<and> m' = score t now \<and>
          score t now < m \<and> (\<forall>u\<in>set (a # pre). score t now < score u now) \<and>
          (\<forall>u\<in>set post. score t now \<le> score u now)"
        by auto
      then show ?thesis by blast
    qed
  next
    case False
    with Cons.prems have run: "selectLoop ts now (sel, m) = (sel', m')"
      by simp
    from Cons.IH [OF run] show ?thesis
    proof (elim disjE exE conjE)
      assume "sel' = sel" "m' = m" "\<forall>u\<in>set ts. m \<le> score u now"
      with False show ?thesis by auto
    next
      fix pre t post
      assume "ts = pre @ t # post" "sel' = Some t" "m' = score t now"
        "score t now < m" "\<forall>u\<in>set pre. score t now < score u now"
        "\<forall>u\<in>set post. score t now \<le> score u now"
      with False have "a # ts = (a # pre) @ t # post \<and> sel' = Some t \<and> m' = score t now \<and>
          score t now < m \<and> (\<forall>u\<in>set (a # pre). score t now < score u now) \<and>
          (\<forall>u\<in>set post. score t now \<le> score u now)"
        by auto
      then show ?thesis by blast
    qed
  qed
qed

lemma selectLoop_None:
  assumes "fst (selectLoop ts now (None, DBL_MAX)) = None"
  shows "\<forall>u\<in>set ts. DBL_MAX \<le> score u now"
proof -
  obtain sel' m' where r: "selectLoop ts now (None, DBL_MAX) = (sel', m')"
    by (cases "selectLoop ts now (None, DBL_MAX)")
  with assms have "sel' = None" by simp
  with selectLoop_cases [OF r] show ?thesis by auto
qed

lemma selectLoop_Some:
  assumes "fst (selectLoop ts now (None, DBL_MAX)) = Some t"
  shows "\<exists>pre post. ts = pre @ t # post \<and>
        (\<forall>u\<in>set pre. score t now < score u now) \<and>
        (\<forall>u\<in>set post. score t now \<le> score u now)"
proof -
  obtain sel' m' where r: "selectLoop ts now (None, DBL_MAX) = (sel', m')"
    by (cases "selectLoop ts now (None, DBL_MAX)")
  with assms have "sel' = Some t" by simp
  with selectLoop_cases [OF r] show ?thesis by auto
qed

subsection \<open>Selection and the scan over the levels\<close>

lemma selectAndMigrateTask_None:
  "fst (selectAndMigrateTask qs i j now) = None \<Longrightarrow> selectAndMigrateTask qs i j now = (None, qs)"
  by (simp add: selectAndMigrateTask_def Let_def split: option.splits)

lemma selectAndMigrateTask_Some:
  assumes "selectAndMigrateTask qs i j now = (Some t, qs')"
  shows "fst (selectLoop (qs ! i) now (None, DBL_MAX)) = Some t"
    and "qs' = push_back (qs[i := eraseById (taskId t) (qs ! i)]) j t"
  using assms by (auto simp: selectAndMigrateTask_def Let_def split: option.splits)

lemma selected_in_level:
  assumes "selectAndMigrateTask qs i j now = (Some t, qs')"
  shows "t \<in> set (qs ! i)"
  using selectLoop_Some [OF selectAndMigrateTask_Some(1) [OF assms]] by auto

lemma scanLevels_Some:
  "scanLevels ls qs now = (Some t, qs') \<Longrightarrow>
     \<exists>i\<in>set ls. selectAndMigrateTask qs i (nextLevel i) now = (Some t, qs')"
proof (induction ls)
  case Nil
  then show ?case by simp
next
  case (Cons l ls)
  obtain r q where sel: "selectAndMigrateTask qs l (nextLevel l) now = (r, q)"
    by (cases "selectAndMigrateTask qs l (nextLevel l) now")
  show ?case
  proof (cases r)
    case None
    with sel have "q = qs" using selectAndMigrateTask_None [of qs l "nextLevel l" now] by simp
    with None sel Cons show ?thesis by simp
  next
    case (Some a)
    with sel Cons.prems show ?thesis by simp
  qed
qed

lemma scanLevels_None:
  "fst (scanLevels ls qs now) = None \<Longrightarrow> scanLevels ls qs now = (None, qs)"
proof (induction ls)
  case Nil
  then show ?case by simp
next
  case (Cons l ls)
  obtain r q where sel: "selectAndMigrateTask qs l (nextLevel l) now = (r, q)"
    by (cases "selectAndMigrateTask qs l (nextLevel l) now")
  show ?case
  proof (cases r)
    case None
    with sel have "q = qs" using selectAndMigrateTask_None [of qs l "nextLevel l" now] by simp
    with None sel Cons show ?thesis by simp
  next
    case (Some a)
    with sel Cons.prems show ?thesis by simp
  qed
qed

lemma selectionPass_levels: "selectionPass qs now = scanLevels [0, 1, 2, 3] qs now"
  by (simp add: selectionPass_def upt4)

lemma selectionPass_Some:
  assumes "selectionPass qs now = (Some t, qs')"
  shows "\<exists>i<NUM_PRIORITY_QUEUES. selectAndMigrateTask qs i (nextLevel i) now = (Some t, qs')"
  using scanLevels_Some [OF assms [unfolded selectionPass_def]] by auto

lemma selectionPass_None:
  "fst (selectionPass qs now) = None \<Longrightarrow> selectionPass qs now = (None, qs)"
  unfolding selectionPass_def by (rule scanLevels_None)

lemma selectionPass_empty:
  "selectionPass (replicate NUM_PRIORITY_QUEUES []) now = (None, replicate NUM_PRIORITY_QUEUES [])"
  unfolding selectionPass_def upt4 replicate4
  by (simp add: selectAndMigrateTask_def)

lemma alone_lists:
  "alone t 0 = [[t], [], [], []]" "alone t 1 = [[], [t], [], []]"
  "alone t 2 = [[], [], [t], []]" "alone t 3 = [[], [], [], [t]]"
  unfolding alone_def replicate4 by simp_all

lemma selectionPass_alone:
  assumes "i < 4" and "int_range (deadline t - now)"
  shows "selectionPass (alone t i) now = (Some t, alone t ((i + 1) mod 4))"
proof -
  from assms(2) have lt: "score t now < DBL_MAX" by (rule score_below_DBL_MAX)
  note defs = selectionPass_levels selectAndMigrateTask_def nextLevel_def
        push_back_def eraseById_def NUM_PRIORITY_QUEUES_def
  from assms(1) consider "i = 0" | "i = 1" | "i = 2" | "i = 3" by linarith
  then show ?thesis
  proof cases
    case 1
    then have e: "(i + 1) mod 4 = 1" by simp
    have "selectionPass [[t], [], [], []] now = (Some t, [[], [t], [], []])"
      using lt by (simp add: defs)
    then show ?thesis unfolding e unfolding 1 alone_lists .
  next
    case 2
    then have e: "(i + 1) mod 4 = 2" by simp
    have "selectionPass [[], [t], [], []] now = (Some t, [[], [], [t], []])"
      using lt by (simp add: defs)
    then show ?thesis unfolding e unfolding 2 alone_lists .
  next
    case 3
    then have e: "(i + 1) mod 4 = 3" by simp
    have "selectionPass [[], [], [t], []] now = (Some t, [[], [], [], [t]])"
      using lt by (simp add: defs)
    then show ?thesis unfolding e unfolding 3 alone_lists .
  next
    case 4
    then have e: "(i + 1) mod 4 = 0" by simp
    have "selectionPass [[], [], [], [t]] now = (Some t, [[t], [], [], []])"
      using lt by (simp add: defs)
    then show ?thesis unfolding e unfolding 4 alone_lists .
  qed
qed

subsection \<open>Evaluation on concrete inputs\<close>

lemma initial_lists:
  "initial_state =
     \<lparr>g_currentTime = 0, g_cpuTaskQueues = [[], [], [], []], g_ioTaskQueues = [[], [], [], []]\<rparr>"
  by (simp add: initial_state_def replicate4)

lemma removeTask_levels:
  "removeTaskFromQueues qs tid = fold (\<lambda>i acc. acc[i := eraseById tid (acc ! i)]) [0, 1, 2, 3] qs"
  by (simp add: removeTaskFromQueues_def upt4)

lemmas run_defs =
  policy_def processEvents_def processEvent_def selectionPass_levels selectAndMigrateTask_def
  nextLevel_def push_back_def eraseById_def entryLevel_def removeTask_levels initial_lists
  score_def Let_def NUM_PRIORITY_QUEUES_def IDLE_TASK_ID_def DBL_MAX_def
  IO_END_PRIORITY_BOOST_FACTOR_def REGULAR_TASK_PRIORITY_FACTOR_def OVERDUE_PENALTY_SCORE_def

lemmas example_defs =
  task5_def task7_def io_task_def rival_def low_task_def boosted_def

section \<open>Selection within a level\<close>

text \<open>
  C4: in a non-empty level whose gaps \<open>deadline - currentTime\<close> are 32-bit values (as
  every \<^verbatim>\<open>int\<close> gap is), the selection step returns a task: the level splits
  around the selected task so that every task before it scores strictly higher and every
  task after it scores at least as high. The selected task has the minimal score, and
  among the tasks of minimal score it is the first in the order of the container.
\<close>

theorem selection_picks_first_minimal:
  assumes "qs ! i \<noteq> []"
    and "\<forall>u\<in>set (qs ! i). int_range (deadline u - now)"
  shows "\<exists>pre t post. fst (selectAndMigrateTask qs i j now) = Some t \<and>
           qs ! i = pre @ t # post \<and>
           (\<forall>u\<in>set pre. score t now < score u now) \<and>
           (\<forall>u\<in>set post. score t now \<le> score u now)"
proof (cases "fst (selectLoop (qs ! i) now (None, DBL_MAX))")
  case None
  from assms(1) obtain u where u: "u \<in> set (qs ! i)" by (cases "qs ! i") auto
  with selectLoop_None [OF None] have "DBL_MAX \<le> score u now" by blast
  moreover from u assms(2) have "score u now < DBL_MAX" by (blast intro: score_below_DBL_MAX)
  ultimately show ?thesis by simp
next
  case (Some t)
  then have "fst (selectAndMigrateTask qs i j now) = Some t"
    by (simp add: selectAndMigrateTask_def Let_def)
  with selectLoop_Some [OF Some] show ?thesis by blast
qed

theorem selection_picks_first_minimal_witness:
  "[[task7, task5, task5], [], [], []] ! 0 \<noteq> [] \<and>
   int_range (deadline task7 - 5) \<and> int_range (deadline task5 - 5) \<and>
   (\<exists>pre t post. fst (selectAndMigrateTask [[task7, task5, task5], [], [], []] 0 1 5) = Some t \<and>
      [[task7, task5, task5], [], [], []] ! 0 = pre @ t # post \<and>
      (\<forall>u\<in>set pre. score t 5 < score u 5) \<and>
      (\<forall>u\<in>set post. score t 5 \<le> score u 5))"
proof -
  have h1: "[[task7, task5, task5], [], [], []] ! 0 \<noteq> []" by simp
  have a: "int_range (deadline task7 - 5)" by (simp add: task7_def int_range_def)
  have b: "int_range (deadline task5 - 5)" by (simp add: task5_def int_range_def)
  from a b have h2: "\<forall>u\<in>set ([[task7, task5, task5], [], [], []] ! 0). int_range (deadline u - 5)"
    by simp
  show ?thesis
    by (intro conjI h1 a b selection_picks_first_minimal [OF h1 h2])
qed

text \<open>
  C10: when \<open>selectAndMigrateTask\<close> selects a task at level \<open>i\<close> with a target level
  \<open>j\<close> other than \<open>i\<close>, the selected task is an entry of level \<open>i\<close> as it stands
  (all fields unchanged), level \<open>i\<close> loses every entry with the selected id, level \<open>j\<close>
  gains exactly one copy of the selected task at its end, and no other level changes.
\<close>

theorem migrate_removes_all_appends_one:
  assumes "selectAndMigrateTask qs i j now = (Some t, qs')"
    and "i < length qs" and "j < length qs" and "i \<noteq> j"
  shows "t \<in> set (qs ! i) \<and>
         qs' ! i = filter (\<lambda>u. taskId u \<noteq> taskId t) (qs ! i) \<and>
         qs' ! j = qs ! j @ [t] \<and>
         (\<forall>k. k \<noteq> i \<and> k \<noteq> j \<longrightarrow> qs' ! k = qs ! k) \<and>
         length qs' = length qs"
  using selected_in_level [OF assms(1)] selectAndMigrateTask_Some(2) [OF assms(1)] assms(2-4)
  by (simp add: push_back_def eraseById_def)

theorem migrate_removes_all_appends_one_witness:
  "selectAndMigrateTask [[task5, task7, task5], [rival], [], [low_task]] 0 1 5 =
     (Some task5, [[task7], [rival, task5], [], [low_task]]) \<and>
   task5 \<in> set ([[task5, task7, task5], [rival], [], [low_task]] ! 0) \<and>
   [[task7], [rival, task5], [], [low_task]] ! 0 =
     filter (\<lambda>u. taskId u \<noteq> taskId task5) ([[task5, task7, task5], [rival], [], [low_task]] ! 0) \<and>
   [[task7], [rival, task5], [], [low_task]] ! 1 =
     [[task5, task7, task5], [rival], [], [low_task]] ! 1 @ [task5] \<and>
   [[task7], [rival, task5], [], [low_task]] ! 3 =
     [[task5, task7, task5], [rival], [], [low_task]] ! 3 \<and>
   length [[task7], [rival, task5], [], [low_task]] =
     length [[task5, task7, task5], [rival], [], [low_task]]"
proof -
  have h1: "selectAndMigrateTask [[task5, task7, task5], [rival], [], [low_task]] 0 1 5 =
     (Some task5, [[task7], [rival, task5], [], [low_task]])"
    by (simp add: run_defs example_defs)
  have h2: "0 < length [[task5, task7, task5], [rival], [], [low_task]]" by simp
  have h3: "1 < length [[task5, task7, task5], [rival], [], [low_task]]" by simp
  have h4: "(0::nat) \<noteq> 1" by simp
  from migrate_removes_all_appends_one [OF h1 h2 h3 h4] h1 show ?thesis
    by (simp add: task5_def task7_def)
qed

section \<open>Removal by id\<close>

text \<open>
  C9: \<open>removeTaskFromQueues\<close> is a total function on arrays (it signals nothing); on an
  array that holds no entry with the id it returns the array unchanged, and applying it
  twice gives what applying it once gives.
\<close>

theorem removal_idempotent:
  "((\<forall>q\<in>set qs. \<forall>t\<in>set q. taskId t \<noteq> tid) \<longrightarrow> removeTaskFromQueues qs tid = qs) \<and>
   removeTaskFromQueues (removeTaskFromQueues qs tid) tid = removeTaskFromQueues qs tid"
proof (intro conjI impI)
  assume absent: "\<forall>q\<in>set qs. \<forall>t\<in>set q. taskId t \<noteq> tid"
  show "removeTaskFromQueues qs tid = qs"
  proof (rule nth_equalityI)
    show "length (removeTaskFromQueues qs tid) = length qs" by (rule removeTask_length)
  next
    fix i assume "i < length (removeTaskFromQueues qs tid)"
    then have i: "i < length qs" by (simp add: removeTask_length)
    then have "qs ! i \<in> set qs" by simp
    with absent have "eraseById tid (qs ! i) = qs ! i"
      by (simp add: eraseById_def)
    with i show "removeTaskFromQueues qs tid ! i = qs ! i"
      by (simp add: removeTask_nth)
  qed
next
  show "removeTaskFromQueues (removeTaskFromQueues qs tid) tid = removeTaskFromQueues qs tid"
  proof (rule nth_equalityI)
    show "length (removeTaskFromQueues (removeTaskFromQueues qs tid) tid) =
          length (removeTaskFromQueues qs tid)"
      by (simp add: removeTask_length)
  next
    fix i assume "i < length (removeTaskFromQueues (removeTaskFromQueues qs tid) tid)"
    then have i: "i < length qs" by (simp add: removeTask_length)
    then show "removeTaskFromQueues (removeTaskFromQueues qs tid) tid ! i =
               removeTaskFromQueues qs tid ! i"
      by (simp add: removeTask_nth removeTask_length eraseById_def)
  qed
qed

theorem removal_idempotent_witness:
  "taskId task5 \<noteq> 9 \<and> taskId task7 \<noteq> 9 \<and> taskId low_task \<noteq> 9 \<and>
   removeTaskFromQueues [[task5], [], [task7, low_task], []] 9 =
     [[task5], [], [task7, low_task], []] \<and>
   removeTaskFromQueues (removeTaskFromQueues [[task5], [], [task7, low_task], []] 9) 9 =
     removeTaskFromQueues [[task5], [], [task7, low_task], []] 9"
proof -
  have h: "\<forall>q\<in>set [[task5], [], [task7, low_task], []]. \<forall>t\<in>set q. taskId t \<noteq> 9"
    by (simp add: task5_def task7_def low_task_def)
  from removal_idempotent [of "[[task5], [], [task7, low_task], []]" 9] h
  show ?thesis by (simp add: task5_def task7_def low_task_def)
qed

section \<open>The policy entry point\<close>

text \<open>
  C7: a call with an empty batch on a state whose eight levels are empty returns the two
  occupants it was given and leaves the clock and both arrays as they were.
\<close>

theorem idle_call_changes_nothing:
  "policy \<lparr>g_currentTime = clock, g_cpuTaskQueues = replicate NUM_PRIORITY_QUEUES [],
           g_ioTaskQueues = replicate NUM_PRIORITY_QUEUES []\<rparr> [] currentCpuTask currentIoTask =
     (\<lparr>cpuTask = currentCpuTask, ioTask = currentIoTask\<rparr>,
      \<lparr>g_currentTime = clock, g_cpuTaskQueues = replicate NUM_PRIORITY_QUEUES [],
       g_ioTaskQueues = replicate NUM_PRIORITY_QUEUES []\<rparr>)"
  by (simp add: policy_def Let_def processEvents_def selectionPass_empty)

section \<open>The score\<close>

text \<open>
  C1 (as amended): an overdue task scores strictly above an on-time task whenever the
  on-time deadline is less than 100000 after the overdue deadline; and of two overdue
  tasks whose gaps \<open>deadline - currentTime\<close> are 32-bit values, the one with the
  earlier deadline (the more overdue one) scores lower.
\<close>

theorem score_overdue_and_ontime:
  "(deadline a \<le> now \<and> now < deadline b \<and> deadline b - deadline a < 100000
      \<longrightarrow> score b now < score a now) \<and>
   (deadline a \<le> now \<and> deadline c \<le> now \<and>
    int_range (deadline a - now) \<and> int_range (deadline c - now)
      \<longrightarrow> (score a now < score c now \<longleftrightarrow> deadline a < deadline c))"
proof (intro conjI impI)
  assume h: "deadline a \<le> now \<and> now < deadline b \<and> deadline b - deadline a < 100000"
  let ?g = "of_int (deadline b - now) :: rat"
  have pos: "0 < ?g" using h by simp
  have "?g < 100000 + of_int (deadline a - now)"
  proof -
    have "deadline b - now < 100000 + (deadline a - now)" using h by simp
    then have "(of_int (deadline b - now) :: rat) < of_int (100000 + (deadline a - now))"
      by (simp only: of_int_less_iff)
    then show ?thesis by simp
  qed
  moreover have "2 / 5 * ?g \<le> ?g" using pos by simp
  ultimately show "score b now < score a now"
    using h by (simp add: score_def IO_END_PRIORITY_BOOST_FACTOR_def
        REGULAR_TASK_PRIORITY_FACTOR_def OVERDUE_PENALTY_SCORE_def)
next
  assume "deadline a \<le> now \<and> deadline c \<le> now \<and>
    int_range (deadline a - now) \<and> int_range (deadline c - now)"
  then show "score a now < score c now \<longleftrightarrow> deadline a < deadline c"
    by (simp add: score_def OVERDUE_PENALTY_SCORE_def)
qed

theorem score_overdue_and_ontime_witness:
  "deadline late1000 \<le> 300000 \<and> 300000 < deadline near_task \<and>
   deadline near_task - deadline late1000 < 100000 \<and>
   score near_task 300000 < score late1000 300000 \<and>
   deadline late10 \<le> 300000 \<and>
   int_range (deadline late1000 - 300000) \<and> int_range (deadline late10 - 300000) \<and>
   deadline late1000 < deadline late10 \<and>
   score late1000 300000 < score late10 300000"
proof -
  have h: "deadline late1000 \<le> 300000" "300000 < deadline near_task"
    "deadline near_task - deadline late1000 < 100000"
    "deadline late10 \<le> 300000" "deadline late1000 < deadline late10"
    "int_range (deadline late1000 - 300000)" "int_range (deadline late10 - 300000)"
    by (simp_all add: late1000_def late10_def near_task_def int_range_def)
  from score_overdue_and_ontime [of late1000 300000 near_task late10] h
  show ?thesis by blast
qed

text \<open>
  At time 300000 the on-time task 200000 units ahead scores above the overdue task that
  is 10 units late, and the task that is 10 units late scores above the task that is
  1000 units late.
\<close>

theorem overdue_score_counterexample:
  "deadline late10 \<le> 300000 \<and> deadline late1000 \<le> 300000 \<and> 300000 < deadline far_task \<and>
   score far_task 300000 = 200000 \<and> score late10 300000 = 99990 \<and>
   score late1000 300000 = 99000 \<and>
   \<not> score far_task 300000 < score late10 300000 \<and>
   \<not> score late10 300000 \<le> score late1000 300000"
  by (simp add: score_def late10_def late1000_def far_task_def
      REGULAR_TASK_PRIORITY_FACTOR_def OVERDUE_PENALTY_SCORE_def)

section \<open>The boost of a task that returned from IO\<close>

text \<open>
  C2 (as amended): selection does not clear the status. The task that
  \<open>selectAndMigrateTask\<close> returns is an entry of the source level as it stands there,
  and the entry it appends to the target level is that same task, so the appended entry
  has the status the selected entry had in the source level. If that status is
  \<open>JustFinishedIO\<close>, the migrated entry is scored with the factor
  \<open>IO_END_PRIORITY_BOOST_FACTOR\<close> at every later time before its deadline (for a gap
  in the 32-bit range).
\<close>

theorem boost_survives_migration:
  assumes "selectAndMigrateTask qs i j now = (Some t, qs')"
    and "j < length qs"
  shows "t \<in> set (qs ! i) \<and> last (qs' ! j) = t \<and>
         (\<exists>k<length (qs ! i). qs ! i ! k = t \<and> status (last (qs' ! j)) = status (qs ! i ! k)) \<and>
         (status t = JustFinishedIO \<and> later < deadline t \<and> int_range (deadline t - later)
            \<longrightarrow> score (last (qs' ! j)) later =
                  IO_END_PRIORITY_BOOST_FACTOR * of_int (deadline t - later))"
proof -
  have mem: "t \<in> set (qs ! i)" by (rule selected_in_level [OF assms(1)])
  have app: "last (qs' ! j) = t"
    using selectAndMigrateTask_Some(2) [OF assms(1)] assms(2) by (simp add: push_back_def)
  from mem obtain k where "k < length (qs ! i)" "qs ! i ! k = t"
    by (auto simp: in_set_conv_nth)
  with app have ex: "\<exists>k<length (qs ! i). qs ! i ! k = t \<and>
      status (last (qs' ! j)) = status (qs ! i ! k)"
    by auto
  have "status t = JustFinishedIO \<and> later < deadline t \<and> int_range (deadline t - later)
      \<longrightarrow> score (last (qs' ! j)) later =
            IO_END_PRIORITY_BOOST_FACTOR * of_int (deadline t - later)"
    unfolding app by (simp add: score_def)
  with mem app ex show ?thesis by blast
qed

theorem boost_survives_migration_witness:
  "selectAndMigrateTask [[rival, boosted], [], [], []] 0 1 0 =
     (Some boosted, [[rival], [boosted], [], []]) \<and>
   1 < length [[rival, boosted], [], [], []] \<and>
   boosted \<in> set ([[rival, boosted], [], [], []] ! 0) \<and>
   last ([[rival], [boosted], [], []] ! 1) = boosted \<and>
   status ([[rival, boosted], [], [], []] ! 0 ! 1) = JustFinishedIO \<and>
   status (last ([[rival], [boosted], [], []] ! 1)) = JustFinishedIO \<and>
   status boosted = JustFinishedIO \<and> 60 < deadline boosted \<and>
   int_range (deadline boosted - 60) \<and>
   score (last ([[rival], [boosted], [], []] ! 1)) 60 = 16"
proof -
  have h1: "selectAndMigrateTask [[rival, boosted], [], [], []] 0 1 0 =
     (Some boosted, [[rival], [boosted], [], []])"
    by (simp add: run_defs example_defs)
  have h2: "1 < length [[rival, boosted], [], [], []]" by simp
  have h3: "status boosted = JustFinishedIO" by (simp add: boosted_def)
  have h4: "60 < deadline boosted" by (simp add: boosted_def io_task_def)
  have h5: "int_range (deadline boosted - 60)"
    by (simp add: boosted_def io_task_def int_range_def)
  have v: "IO_END_PRIORITY_BOOST_FACTOR * of_int (deadline boosted - 60) = 16"
    by (simp add: boosted_def io_task_def IO_END_PRIORITY_BOOST_FACTOR_def)
  note r = boost_survives_migration [OF h1 h2, of 60]
  from r h3 h4 h5 v have sc: "score (last ([[rival], [boosted], [], []] ! 1)) 60 = 16"
    by metis
  from r have m: "boosted \<in> set ([[rival, boosted], [], [], []] ! 0)"
    and l: "last ([[rival], [boosted], [], []] ! 1) = boosted"
    by blast+
  from l h3 have st: "status ([[rival, boosted], [], [], []] ! 0 ! 1) = JustFinishedIO"
    "status (last ([[rival], [boosted], [], []] ! 1)) = JustFinishedIO"
    by simp_all
  from h1 h2 m l st h3 h4 h5 sc show ?thesis by blast
qed

subsection \<open>Three calls\<close>

lemma first_call:
  "policy initial_state
      [\<lparr>time = 0, etype = kTaskArrival, task = rival\<rparr>,
       \<lparr>time = 0, etype = kIoEnd, task = io_task\<rparr>] 0 0 =
     (\<lparr>cpuTask = 1, ioTask = 0\<rparr>,
      \<lparr>g_currentTime = 0, g_cpuTaskQueues = [[rival], [boosted], [], []],
       g_ioTaskQueues = [[], [], [], []]\<rparr>)"
  by (simp add: run_defs example_defs)

lemma after_first_call_value:
  "after_first_call =
      \<lparr>g_currentTime = 0, g_cpuTaskQueues = [[rival], [boosted], [], []],
       g_ioTaskQueues = [[], [], [], []]\<rparr>"
  by (simp add: after_first_call_def first_call)

lemma second_call:
  "policy after_first_call [] 1 0 =
     (\<lparr>cpuTask = 2, ioTask = 0\<rparr>,
      \<lparr>g_currentTime = 0, g_cpuTaskQueues = [[], [boosted, rival], [], []],
       g_ioTaskQueues = [[], [], [], []]\<rparr>)"
  unfolding after_first_call_value
  by (simp add: run_defs example_defs)

lemma after_second_call_value:
  "after_second_call =
      \<lparr>g_currentTime = 0, g_cpuTaskQueues = [[], [boosted, rival], [], []],
       g_ioTaskQueues = [[], [], [], []]\<rparr>"
  by (simp add: after_second_call_def second_call)

lemma third_call:
  "policy after_second_call [] 2 0 =
     (\<lparr>cpuTask = 1, ioTask = 0\<rparr>,
      \<lparr>g_currentTime = 0, g_cpuTaskQueues = [[], [rival], [boosted], []],
       g_ioTaskQueues = [[], [], [], []]\<rparr>)"
  unfolding after_second_call_value
  by (simp add: run_defs example_defs)

text \<open>
  \<open>io_task\<close> is selected and migrated by the first call. In the third call it is
  still scored with the factor 0.4 (40, below the rival's 50) and is selected again; with
  the factor 1.0 it would score 100 and the rival would be selected.
\<close>

theorem boost_not_cleared_counterexample:
  "cpuTask (fst (policy initial_state
      [\<lparr>time = 0, etype = kTaskArrival, task = rival\<rparr>,
       \<lparr>time = 0, etype = kIoEnd, task = io_task\<rparr>] 0 0)) = taskId io_task \<and>
   g_cpuTaskQueues after_first_call = [[rival], [boosted], [], []] \<and>
   g_cpuTaskQueues after_second_call = [[], [boosted, rival], [], []] \<and>
   score boosted 0 = 40 \<and> score rival 0 = 50 \<and>
   REGULAR_TASK_PRIORITY_FACTOR * of_int (deadline boosted - 0) = 100 \<and>
   cpuTask (fst (policy after_second_call [] 2 0)) = taskId io_task"
proof -
  have "cpuTask (fst (policy initial_state
      [\<lparr>time = 0, etype = kTaskArrival, task = rival\<rparr>,
       \<lparr>time = 0, etype = kIoEnd, task = io_task\<rparr>] 0 0)) = taskId io_task"
    unfolding first_call by (simp add: io_task_def)
  moreover have "g_cpuTaskQueues after_first_call = [[rival], [boosted], [], []]"
    by (simp add: after_first_call_value)
  moreover have "g_cpuTaskQueues after_second_call = [[], [boosted, rival], [], []]"
    by (simp add: after_second_call_value)
  moreover have "score boosted 0 = 40 \<and> score rival 0 = 50 \<and>
      REGULAR_TASK_PRIORITY_FACTOR * of_int (deadline boosted - 0) = 100"
    by (simp add: score_def example_defs IO_END_PRIORITY_BOOST_FACTOR_def
        REGULAR_TASK_PRIORITY_FACTOR_def)
  moreover have "cpuTask (fst (policy after_second_call [] 2 0)) = taskId io_task"
    unfolding third_call by (simp add: io_task_def)
  ultimately show ?thesis by simp
qed

section \<open>Event folding\<close>

text \<open>
  C3: folding a \<open>kIoEnd\<close> event filters the entries with the event task's id out of
  every level of the IO array, appends the event's task with status \<open>JustFinishedIO\<close>
  to CPU level 0 (priority \<open>High\<close>) or 2 (otherwise), changes no other level of the
  CPU array, and sets the clock to the event's time.
\<close>

theorem fold_IoEnd:
  assumes "etype ev = kIoEnd"
    and "wf_queues (g_cpuTaskQueues s)" and "wf_queues (g_ioTaskQueues s)"
  shows "g_ioTaskQueues (processEvent s ev) =
           map (filter (\<lambda>t. taskId t \<noteq> taskId (task ev))) (g_ioTaskQueues s) \<and>
         g_cpuTaskQueues (processEvent s ev) =
           (g_cpuTaskQueues s)
             [(if priority (task ev) = High then 0 else 2) :=
                g_cpuTaskQueues s ! (if priority (task ev) = High then 0 else 2) @
                [(task ev)\<lparr>status := JustFinishedIO\<rparr>]] \<and>
         g_currentTime (processEvent s ev) = time ev"
  using assms(1) remove_map [OF assms(3)]
  by (simp add: processEvent_def Let_def push_back_def entryLevel_def eraseById_def)

theorem fold_IoEnd_witness:
  "etype \<lparr>time = 4, etype = kIoEnd, task = task7\<rparr> = kIoEnd \<and>
   wf_queues (g_cpuTaskQueues io_waiting) \<and> wf_queues (g_ioTaskQueues io_waiting) \<and>
   g_ioTaskQueues (processEvent io_waiting \<lparr>time = 4, etype = kIoEnd, task = task7\<rparr>) =
     [[], [], [low_task], []] \<and>
   g_cpuTaskQueues (processEvent io_waiting \<lparr>time = 4, etype = kIoEnd, task = task7\<rparr>) =
     [[task5, task7\<lparr>status := JustFinishedIO\<rparr>], [], [], []] \<and>
   g_currentTime (processEvent io_waiting \<lparr>time = 4, etype = kIoEnd, task = task7\<rparr>) = 4"
proof -
  have h1: "etype \<lparr>time = 4, etype = kIoEnd, task = task7\<rparr> = kIoEnd" by simp
  have h2: "wf_queues (g_cpuTaskQueues io_waiting)"
    by (simp add: io_waiting_def wf_queues_def NUM_PRIORITY_QUEUES_def)
  have h3: "wf_queues (g_ioTaskQueues io_waiting)"
    by (simp add: io_waiting_def wf_queues_def NUM_PRIORITY_QUEUES_def)
  have io: "map (filter (\<lambda>t. taskId t \<noteq> taskId task7)) (g_ioTaskQueues io_waiting) =
      [[], [], [low_task], []]"
    by (simp add: io_waiting_def task7_def low_task_def)
  have cpu: "(g_cpuTaskQueues io_waiting)[0 := g_cpuTaskQueues io_waiting ! 0 @
      [task7\<lparr>status := JustFinishedIO\<rparr>]] = [[task5, task7\<lparr>status := JustFinishedIO\<rparr>], [], [], []]"
    by (simp add: io_waiting_def)
  have hi: "priority task7 = High" by (simp add: task7_def)
  from fold_IoEnd [OF h1 h2 h3] io cpu hi h1 h2 h3 show ?thesis by simp
qed

text \<open>
  C6: when \<open>currentIoTask\<close> is not 0, the returned \<open>ioTask\<close> is \<open>currentIoTask\<close> and
  the IO array after the call is the IO array after event folding. Whatever the two
  occupants are, the CPU array after the call is the result of the selection pass on the
  folded CPU array, and \<open>cpuTask\<close> is the id that pass selected, or \<open>currentCpuTask\<close>
  when it selected nothing.
\<close>

theorem busy_io_keeps_io_queues:
  "(currentIoTask \<noteq> 0 \<longrightarrow>
      ioTask (fst (policy s evs currentCpuTask currentIoTask)) = currentIoTask \<and>
      g_ioTaskQueues (snd (policy s evs currentCpuTask currentIoTask)) =
        g_ioTaskQueues (processEvents s evs)) \<and>
   g_cpuTaskQueues (snd (policy s evs currentCpuTask currentIoTask)) =
     snd (selectionPass (g_cpuTaskQueues (processEvents s evs))
            (g_currentTime (processEvents s evs))) \<and>
   cpuTask (fst (policy s evs currentCpuTask currentIoTask)) =
     (case fst (selectionPass (g_cpuTaskQueues (processEvents s evs))
                  (g_currentTime (processEvents s evs))) of
        None \<Rightarrow> currentCpuTask | Some t \<Rightarrow> taskId t)"
  by (simp add: policy_def Let_def IDLE_TASK_ID_def split: prod.splits)

lemma io_waiting_pass:
  "selectionPass (g_cpuTaskQueues (processEvents io_waiting []))
     (g_currentTime (processEvents io_waiting [])) = (Some task5, [[], [task5], [], []])"
  by (simp add: io_waiting_def run_defs example_defs)

theorem busy_io_keeps_io_queues_witness:
  "(9::int) \<noteq> 0 \<and>
   ioTask (fst (policy io_waiting [] 8 9)) = 9 \<and>
   g_ioTaskQueues (snd (policy io_waiting [] 8 9)) = [[task7], [], [low_task], [task7]] \<and>
   g_cpuTaskQueues (snd (policy io_waiting [] 8 9)) = [[], [task5], [], []] \<and>
   cpuTask (fst (policy io_waiting [] 8 9)) = 5"
proof -
  have h: "(9::int) \<noteq> 0" by simp
  have io: "g_ioTaskQueues (processEvents io_waiting []) = [[task7], [], [low_task], [task7]]"
    by (simp add: processEvents_def io_waiting_def)
  from busy_io_keeps_io_queues [of 9 io_waiting "[]" 8] h io io_waiting_pass
  show ?thesis by (simp add: task5_def)
qed

section \<open>Migration along the ring\<close>

text \<open>
  C5: when the selection pass over an array of four levels selects a task, the task was
  an entry of some level \<open>i\<close>; afterwards level \<open>i\<close> has lost the entries with the
  task's id, level \<open>(i + 1) mod 4\<close> has gained the task at its end, and the other two
  levels are unchanged, so the task is still in the array. A task that is alone in the
  array at level \<open>i\<close> (with a 32-bit gap) is selected and is afterwards alone at level
  \<open>(i + 1) mod 4\<close>: over repeated passes it visits the levels 0, 1, 2, 3, 0 and so on.
\<close>

theorem selection_moves_along_ring:
  "(wf_queues qs \<and> selectionPass qs now = (Some t, qs') \<longrightarrow>
      (\<exists>i<4. t \<in> set (qs ! i) \<and>
         qs' ! i = filter (\<lambda>u. taskId u \<noteq> taskId t) (qs ! i) \<and>
         qs' ! ((i + 1) mod 4) = qs ! ((i + 1) mod 4) @ [t] \<and>
         (\<forall>k<4. k \<noteq> i \<and> k \<noteq> (i + 1) mod 4 \<longrightarrow> qs' ! k = qs ! k) \<and>
         wf_queues qs')) \<and>
   (l < 4 \<and> int_range (deadline t - now) \<longrightarrow>
      selectionPass (alone t l) now = (Some t, alone t ((l + 1) mod 4)))"
proof (intro conjI impI)
  assume h: "wf_queues qs \<and> selectionPass qs now = (Some t, qs')"
  then obtain i where i: "i < NUM_PRIORITY_QUEUES"
    and sel: "selectAndMigrateTask qs i (nextLevel i) now = (Some t, qs')"
    using selectionPass_Some by blast
  from i have i4: "i < 4" by (simp add: NUM_PRIORITY_QUEUES_def)
  from i have nl: "nextLevel i = (i + 1) mod 4"
    by (auto simp: nextLevel_def NUM_PRIORITY_QUEUES_def)
  from i4 have ne: "(i + 1) mod 4 \<noteq> i" and lt: "(i + 1) mod 4 < 4" by presburger+
  from h have len: "length qs = 4" by (simp add: wf_queues_def NUM_PRIORITY_QUEUES_def)
  have mem: "t \<in> set (qs ! i)" by (rule selected_in_level [OF sel])
  have qs': "qs' = (qs[i := eraseById (taskId t) (qs ! i)])
               [(i + 1) mod 4 := qs[i := eraseById (taskId t) (qs ! i)] ! ((i + 1) mod 4) @ [t]]"
    using selectAndMigrateTask_Some(2) [OF sel] unfolding nl push_back_def .
  have a: "qs' ! i = filter (\<lambda>u. taskId u \<noteq> taskId t) (qs ! i)"
    unfolding qs' using ne i4 len by (simp add: eraseById_def)
  have b: "qs' ! ((i + 1) mod 4) = qs ! ((i + 1) mod 4) @ [t]"
    unfolding qs' using ne lt len by simp
  have c: "\<forall>k<4. k \<noteq> i \<and> k \<noteq> (i + 1) mod 4 \<longrightarrow> qs' ! k = qs ! k"
    unfolding qs' by simp
  have d: "wf_queues qs'"
    unfolding qs' using len by (simp add: wf_queues_def NUM_PRIORITY_QUEUES_def)
  from i4 mem a b c d show "\<exists>i<4. t \<in> set (qs ! i) \<and>
         qs' ! i = filter (\<lambda>u. taskId u \<noteq> taskId t) (qs ! i) \<and>
         qs' ! ((i + 1) mod 4) = qs ! ((i + 1) mod 4) @ [t] \<and>
         (\<forall>k<4. k \<noteq> i \<and> k \<noteq> (i + 1) mod 4 \<longrightarrow> qs' ! k = qs ! k) \<and>
         wf_queues qs'"
    by blast
next
  assume "l < 4 \<and> int_range (deadline t - now)"
  then show "selectionPass (alone t l) now = (Some t, alone t ((l + 1) mod 4))"
    by (simp add: selectionPass_alone)
qed

lemma ring_pass:
  "selectionPass [[task7], [], [], [task5]] 5 = (Some task7, [[], [task7], [], [task5]])"
  by (simp add: run_defs example_defs)

theorem selection_moves_along_ring_witness:
  "wf_queues [[task7], [], [], [task5]] \<and>
   selectionPass [[task7], [], [], [task5]] 5 = (Some task7, [[], [task7], [], [task5]]) \<and>
   (\<exists>i<4. task7 \<in> set ([[task7], [], [], [task5]] ! i) \<and>
      [[], [task7], [], [task5]] ! i =
        filter (\<lambda>u. taskId u \<noteq> taskId task7) ([[task7], [], [], [task5]] ! i) \<and>
      [[], [task7], [], [task5]] ! ((i + 1) mod 4) =
        [[task7], [], [], [task5]] ! ((i + 1) mod 4) @ [task7] \<and>
      (\<forall>k<4. k \<noteq> i \<and> k \<noteq> (i + 1) mod 4 \<longrightarrow>
         [[], [task7], [], [task5]] ! k = [[task7], [], [], [task5]] ! k) \<and>
      wf_queues [[], [task7], [], [task5]]) \<and>
   (3::nat) < 4 \<and> int_range (deadline task7 - 5) \<and>
   selectionPass (alone task7 3) 5 = (Some task7, alone task7 ((3 + 1) mod 4))"
proof -
  have h1: "wf_queues [[task7], [], [], [task5]]"
    by (simp add: wf_queues_def NUM_PRIORITY_QUEUES_def)
  have h3: "(3::nat) < 4" by simp
  have h4: "int_range (deadline task7 - 5)" by (simp add: task7_def int_range_def)
  from selection_moves_along_ring
    [of "[[task7], [], [], [task5]]" 5 task7 "[[], [task7], [], [task5]]" 3]
    h1 ring_pass h3 h4
  show ?thesis by blast
qed

section \<open>Ids queued at most once\<close>

subsection \<open>The ids of an array under the queue operations\<close>

lemma queued_ids_split:
  assumes "i < length qs"
  shows "\<exists>A C. queued_ids qs = A @ map taskId (qs ! i) @ C \<and>
           (\<forall>q. queued_ids (qs[i := q]) = A @ map taskId q @ C)"
proof -
  let ?A = "map taskId (concat (take i qs))" and ?C = "map taskId (concat (drop (Suc i) qs))"
  have "qs = take i qs @ qs ! i # drop (Suc i) qs"
    using assms by (rule id_take_nth_drop)
  then have "queued_ids qs = ?A @ map taskId (qs ! i) @ ?C"
    unfolding queued_ids_def by (metis concat.simps(2) concat_append map_append)
  moreover have "\<forall>q. queued_ids (qs[i := q]) = ?A @ map taskId q @ ?C"
    using assms by (simp add: queued_ids_def upd_conv_take_nth_drop)
  ultimately show ?thesis by blast
qed

lemma set_ids_push_back:
  assumes "l < length qs"
  shows "set (queued_ids (push_back qs l t)) = insert (taskId t) (set (queued_ids qs))"
proof -
  from queued_ids_split [OF assms] obtain A C where
    "queued_ids qs = A @ map taskId (qs ! l) @ C"
    "queued_ids (qs[l := qs ! l @ [t]]) = A @ map taskId (qs ! l @ [t]) @ C"
    by blast
  then show ?thesis by (auto simp: push_back_def)
qed

lemma distinct_ids_push_back:
  assumes "l < length qs"
  shows "distinct (queued_ids (push_back qs l t)) \<longleftrightarrow>
         distinct (queued_ids qs) \<and> taskId t \<notin> set (queued_ids qs)"
proof -
  from queued_ids_split [OF assms] obtain A C where
    "queued_ids qs = A @ map taskId (qs ! l) @ C"
    "queued_ids (qs[l := qs ! l @ [t]]) = A @ map taskId (qs ! l @ [t]) @ C"
    by blast
  then show ?thesis by (auto simp: push_back_def)
qed

lemma ids_erase_level:
  assumes "i < length qs" and "distinct (queued_ids qs)" and "t \<in> set (qs ! i)"
  shows "distinct (queued_ids (qs[i := eraseById (taskId t) (qs ! i)]))"
    and "set (queued_ids (qs[i := eraseById (taskId t) (qs ! i)])) =
         set (queued_ids qs) - {taskId t}"
proof -
  from queued_ids_split [OF assms(1)] obtain A C where
    *: "queued_ids qs = A @ map taskId (qs ! i) @ C"
    "queued_ids (qs[i := eraseById (taskId t) (qs ! i)]) =
       A @ map taskId (eraseById (taskId t) (qs ! i)) @ C"
    by blast
  from assms(3) have in_level: "taskId t \<in> taskId ` set (qs ! i)" by blast
  with * assms(2) have out: "taskId t \<notin> set A" "taskId t \<notin> set C" by auto
  show "distinct (queued_ids (qs[i := eraseById (taskId t) (qs ! i)]))"
    using * assms(2) by (auto simp: eraseById_def distinct_map_filter)
  show "set (queued_ids (qs[i := eraseById (taskId t) (qs ! i)])) =
        set (queued_ids qs) - {taskId t}"
    using * out by (auto simp: eraseById_def)
qed

lemma ids_removeTask:
  assumes "wf_queues qs"
  shows "queued_ids (removeTaskFromQueues qs tid) = filter (\<lambda>x. x \<noteq> tid) (queued_ids qs)"
  unfolding remove_map [OF assms] queued_ids_def eraseById_def
  by (induction qs) (simp_all add: filter_map comp_def)

lemma wf_push_back: "wf_queues (push_back qs l t) = wf_queues qs"
  by (simp add: wf_queues_def push_back_def)

lemma wf_removeTask: "wf_queues qs \<Longrightarrow> wf_queues (removeTaskFromQueues qs tid)"
  by (simp add: wf_queues_def removeTask_length)

lemma entryLevel_lt: "wf_queues qs \<Longrightarrow> entryLevel t < length qs"
  by (simp add: wf_queues_def entryLevel_def NUM_PRIORITY_QUEUES_def)

lemma selectionPass_ids:
  assumes "wf_queues qs"
  shows "wf_queues (snd (selectionPass qs now))"
    and "distinct (queued_ids qs) \<Longrightarrow> distinct (queued_ids (snd (selectionPass qs now)))"
    and "distinct (queued_ids qs) \<Longrightarrow>
         set (queued_ids (snd (selectionPass qs now))) = set (queued_ids qs)"
proof -
  obtain r qs' where run: "selectionPass qs now = (r, qs')"
    by (cases "selectionPass qs now")
  have "wf_queues qs' \<and> (distinct (queued_ids qs) \<longrightarrow>
          distinct (queued_ids qs') \<and> set (queued_ids qs') = set (queued_ids qs))"
  proof (cases r)
    case None
    with run selectionPass_None [of qs now] assms show ?thesis by simp
  next
    case (Some t)
    with run selectionPass_Some obtain i where i: "i < NUM_PRIORITY_QUEUES"
      and sel: "selectAndMigrateTask qs i (nextLevel i) now = (Some t, qs')"
      by blast
    let ?er = "qs[i := eraseById (taskId t) (qs ! i)]"
    have qs': "qs' = push_back ?er (nextLevel i) t"
      by (rule selectAndMigrateTask_Some(2) [OF sel])
    have t: "t \<in> set (qs ! i)" by (rule selected_in_level [OF sel])
    have il: "i < length qs" using i assms by (simp add: wf_queues_def)
    have nl: "nextLevel i < length ?er"
      using i assms by (simp add: wf_queues_def nextLevel_def NUM_PRIORITY_QUEUES_def)
    have wf: "wf_queues qs'" using assms qs' by (simp add: wf_push_back) (simp add: wf_queues_def)
    {
      assume d: "distinct (queued_ids qs)"
      have "taskId t \<in> set (queued_ids qs)"
        using t il unfolding queued_ids_def by (metis image_eqI nth_mem set_concat set_map UN_I)
      then have "distinct (queued_ids qs') \<and> set (queued_ids qs') = set (queued_ids qs)"
        unfolding qs' distinct_ids_push_back [OF nl] set_ids_push_back [OF nl]
        using ids_erase_level [OF il d t] by auto
    }
    with wf show ?thesis by blast
  qed
  with run show "wf_queues (snd (selectionPass qs now))"
    and "distinct (queued_ids qs) \<Longrightarrow> distinct (queued_ids (snd (selectionPass qs now)))"
    and "distinct (queued_ids qs) \<Longrightarrow>
         set (queued_ids (snd (selectionPass qs now))) = set (queued_ids qs)"
    by simp_all
qed

subsection \<open>The invariant\<close>

lemma processEvent_ok:
  assumes "state_ok s" and "event_fresh s ev"
  shows "state_ok (processEvent s ev)"
proof -
  from assms(1) have wc: "wf_queues (g_cpuTaskQueues s)" and wi: "wf_queues (g_ioTaskQueues s)"
    and u: "unique_ids s" by (simp_all add: state_ok_def)
  note el = entryLevel_lt [OF wc] entryLevel_lt [OF wi]
  show ?thesis
  proof (cases "etype ev")
    case kTimer
    with assms(1) show ?thesis by (simp add: processEvent_def Let_def state_ok_def unique_ids_def)
  next
    case kTaskArrival
    with assms(2) wc wi u el show ?thesis
      by (auto simp: processEvent_def Let_def state_ok_def unique_ids_def event_fresh_def
          wf_push_back distinct_ids_push_back set_ids_push_back)
  next
    case kTaskFinish
    with wc wi u show ?thesis
      by (auto simp: processEvent_def Let_def state_ok_def unique_ids_def wf_removeTask
          ids_removeTask)
  next
    case kIoRequest
    with assms(2) wc wi u el show ?thesis
      by (auto simp: processEvent_def Let_def state_ok_def unique_ids_def event_fresh_def
          wf_push_back distinct_ids_push_back set_ids_push_back wf_removeTask ids_removeTask)
  next
    case kIoEnd
    with assms(2) wc wi u el show ?thesis
      by (auto simp: processEvent_def Let_def state_ok_def unique_ids_def event_fresh_def
          wf_push_back distinct_ids_push_back set_ids_push_back wf_removeTask ids_removeTask)
  qed
qed

lemma processEvents_ok:
  "state_ok s \<Longrightarrow> events_fresh s evs \<Longrightarrow> state_ok (processEvents s evs)"
  unfolding processEvents_def
  by (induction evs arbitrary: s) (simp_all add: processEvent_ok)

lemma policy_ok:
  assumes "state_ok s" and "events_fresh s evs"
  shows "state_ok (snd (policy s evs c io))"
proof -
  let ?s1 = "processEvents s evs"
  from processEvents_ok [OF assms] have wc: "wf_queues (g_cpuTaskQueues ?s1)"
    and wi: "wf_queues (g_ioTaskQueues ?s1)" and u: "unique_ids ?s1"
    by (simp_all add: state_ok_def)
  from u have dc: "distinct (queued_ids (g_cpuTaskQueues ?s1))"
    and di: "distinct (queued_ids (g_ioTaskQueues ?s1))"
    by (simp_all add: unique_ids_def)
  show ?thesis
    using wc wi u selectionPass_ids [OF wc, of "g_currentTime ?s1"]
      selectionPass_ids [OF wi, of "g_currentTime ?s1"] dc di
    by (auto simp: policy_def Let_def state_ok_def unique_ids_def split: prod.splits)
qed

lemma initial_ok: "state_ok initial_state"
  by (simp add: state_ok_def initial_state_def wf_queues_def unique_ids_def queued_ids_def)

lemma run_calls_ok:
  "state_ok s \<Longrightarrow> calls_fresh s cs \<Longrightarrow> state_ok (run_calls s cs)"
proof (induction cs arbitrary: s)
  case Nil
  then show ?case by simp
next
  case (Cons c cs)
  obtain evs cpu io where c: "c = (evs, cpu, io)" by (cases c)
  with Cons.prems have "state_ok (snd (policy s evs cpu io))"
    and "calls_fresh (snd (policy s evs cpu io)) cs"
    by (simp_all add: policy_ok)
  with Cons.IH c show ?case by simp
qed

text \<open>
  C8 (as amended): in every state reached from the initial state by a sequence of calls
  to \<open>policy\<close> whose events queue no id a second time (\<open>calls_fresh\<close>), every id is
  queued at most once over the eight levels of the two arrays.
\<close>

theorem fresh_calls_unique_ids:
  assumes "calls_fresh initial_state cs"
  shows "unique_ids (run_calls initial_state cs)"
  using run_calls_ok [OF initial_ok assms] by (simp add: state_ok_def)

lemma two_arrivals_fresh: "events_fresh initial_state two_arrivals"
  by (simp add: two_arrivals_def event_fresh_def queued_ids_def run_defs example_defs)

lemma two_arrivals_call:
  "policy initial_state two_arrivals 0 0 =
     (\<lparr>cpuTask = 5, ioTask = 0\<rparr>,
      \<lparr>g_currentTime = 5, g_cpuTaskQueues = [[task7], [task5], [], []],
       g_ioTaskQueues = [[], [], [], []]\<rparr>)"
  by (simp add: two_arrivals_def run_defs example_defs)

lemma timer_call:
  "policy \<lparr>g_currentTime = 5, g_cpuTaskQueues = [[task7], [task5], [], []],
           g_ioTaskQueues = [[], [], [], []]\<rparr>
      [\<lparr>time = 6, etype = kTimer, task = task5\<rparr>] 5 0 =
     (\<lparr>cpuTask = 7, ioTask = 0\<rparr>,
      \<lparr>g_currentTime = 6, g_cpuTaskQueues = [[], [task5, task7], [], []],
       g_ioTaskQueues = [[], [], [], []]\<rparr>)"
  by (simp add: run_defs example_defs)

theorem fresh_calls_unique_ids_witness:
  "calls_fresh initial_state
     [(two_arrivals, 0, 0), ([\<lparr>time = 6, etype = kTimer, task = task5\<rparr>], 5, 0)] \<and>
   unique_ids (run_calls initial_state
     [(two_arrivals, 0, 0), ([\<lparr>time = 6, etype = kTimer, task = task5\<rparr>], 5, 0)]) \<and>
   g_cpuTaskQueues (run_calls initial_state
     [(two_arrivals, 0, 0), ([\<lparr>time = 6, etype = kTimer, task = task5\<rparr>], 5, 0)]) =
     [[], [task5, task7], [], []]"
proof -
  have f: "calls_fresh initial_state
     [(two_arrivals, 0, 0), ([\<lparr>time = 6, etype = kTimer, task = task5\<rparr>], 5, 0)]"
    by (simp add: two_arrivals_fresh two_arrivals_call event_fresh_def)
  have q: "g_cpuTaskQueues (run_calls initial_state
     [(two_arrivals, 0, 0), ([\<lparr>time = 6, etype = kTimer, task = task5\<rparr>], 5, 0)]) =
     [[], [task5, task7], [], []]"
    by (simp add: two_arrivals_call timer_call)
  from f fresh_calls_unique_ids [OF f] q show ?thesis by blast
qed

text \<open>
  One call from the initial state with \<open>task7\<close> arriving twice leaves two entries with
  id 7 in CPU level 0; one call in which \<open>low_task\<close> arrives, requests IO and arrives
  again, while the IO device is busy, leaves id 3 queued in both arrays.
\<close>

lemma twice_arrived_call:
  "snd (policy initial_state twice_arrived 0 0) =
     \<lparr>g_currentTime = 5, g_cpuTaskQueues = [[task7, task7], [task5], [], []],
      g_ioTaskQueues = [[], [], [], []]\<rparr>"
  by (simp add: twice_arrived_def run_defs example_defs)

lemma arrived_during_io_call:
  "snd (policy initial_state arrived_during_io 0 9) =
     \<lparr>g_currentTime = 3, g_cpuTaskQueues = [[], [], [], [low_task]],
      g_ioTaskQueues = [[], [], [low_task], []]\<rparr>"
  by (simp add: arrived_during_io_def run_defs example_defs)

theorem duplicate_ids_counterexample:
  "g_cpuTaskQueues (run_calls initial_state [(twice_arrived, 0, 0)]) =
     [[task7, task7], [task5], [], []] \<and>
   \<not> unique_ids (run_calls initial_state [(twice_arrived, 0, 0)]) \<and>
   g_cpuTaskQueues (run_calls initial_state [(arrived_during_io, 0, 9)]) =
     [[], [], [], [low_task]] \<and>
   g_ioTaskQueues (run_calls initial_state [(arrived_during_io, 0, 9)]) =
     [[], [], [low_task], []] \<and>
   \<not> unique_ids (run_calls initial_state [(arrived_during_io, 0, 9)])"
  by (simp add: twice_arrived_call arrived_during_io_call unique_ids_def queued_ids_def)

end
